theory Spec2Isabelle
  imports Main "HOL-Library.Sublist"
begin

section \<open>Data model of closuretree/models.py\<close>

text \<open>
  The package keeps, beside the table of a tree-shaped Django model, a closure table
  \<open><Model>Closure\<close> with the columns \<open>parent\<close>, \<open>child\<close> and \<open>depth\<close>
  (\<open>create_closure_model\<close>). The closure model declares no primary key of its own, so
  Django gives it the automatic integer column \<open>id\<close>; \<open>pk\<close> on a closure row is that
  column. A table is the list of its rows in insertion order together with the next
  value of the id sequence. Foreign-key constraints are not part of the model.
\<close>

datatype error =
    ObjectDoesNotExist
  | IntegrityError
  | AssertionError
  | NameError
  | AttributeError
  | ValueError

datatype vendor = Sqlite | Mysql | Postgresql | OtherVendor

record closure_row =
  row_id :: int
  parent_id :: int
  child_id :: int
  depth :: int

record closure_table =
  rows :: "closure_row list"
  next_id :: int

text \<open>
  A persisted (or loaded) node: its primary key, the value of \<open>_closure_parent_pk\<close>
  (the \<open>parent_id\<close> column, \<open>None\<close> for NULL) and its \<open>level\<close> column.
\<close>

record node =
  pk :: int
  parent_pk :: "int option"
  level :: int

record db =
  node_table :: "node list"
  closure :: closure_table

text \<open>A closure row as the triple (ancestor, descendant, distance).\<close>

definition link :: "closure_row \<Rightarrow> int \<times> int \<times> int" where
  "link r = (parent_id r, child_id r, depth r)"

definition links :: "closure_table \<Rightarrow> (int \<times> int \<times> int) set" where
  "links t = link ` set (rows t)"

text \<open>The constraint \<open>unique_together = (("parent", "child"),)\<close> of the closure model.\<close>

definition row_key :: "closure_row \<Rightarrow> int \<times> int" where
  "row_key r = (parent_id r, child_id r)"

definition unique_together :: "closure_table \<Rightarrow> bool" where
  "unique_together t = distinct (map row_key (rows t))"

section \<open>Link creation\<close>

text \<open>
  \<open>if parent_id:\<close> is Python's truth test: \<open>None\<close> and \<open>0\<close> are both false.
\<close>

definition truthy :: "int option \<Rightarrow> bool" where
  "truthy v = (case v of None \<Rightarrow> False | Some i \<Rightarrow> i \<noteq> 0)"

text \<open>
  The rows of \<open>' UNION '.join(selects)\<close>, as (depth, child_id, parent_id): the constant
  select \<open>SELECT 0, pk, pk\<close>, and, under a true parent id, the select over the closure
  rows whose child is the parent. \<open>UNION\<close> removes duplicate rows. Primary keys are
  integers here; for a UUID key the code only turns the query arguments into text.
\<close>

definition createlink_selects :: "node \<Rightarrow> closure_row list \<Rightarrow> (int \<times> int \<times> int) list" where
  "createlink_selects self rs =
     remdups ((0, pk self, pk self) #
       (if truthy (parent_pk self)
        then map (\<lambda>r. (depth r + 1, pk self, parent_id r))
               (filter (\<lambda>r. Some (child_id r) = parent_pk self) rs)
        else []))"

fun insert_operator :: "vendor \<Rightarrow> string" where
  "insert_operator Sqlite = ''INSERT OR IGNORE''"
| "insert_operator Mysql = ''INSERT IGNORE''"
| "insert_operator Postgresql = ''INSERT''"
| "insert_operator OtherVendor = ''INSERT''"

fun on_conflict_clause :: "vendor \<Rightarrow> string" where
  "on_conflict_clause Postgresql = ''ON CONFLICT DO NOTHING''"
| "on_conflict_clause v = ''''"

text \<open>What the generated statement does with a row whose (parent, child) key is taken.\<close>

definition ignores_conflict :: "vendor \<Rightarrow> bool" where
  "ignores_conflict v =
     (insert_operator v = ''INSERT OR IGNORE'' \<or> insert_operator v = ''INSERT IGNORE''
      \<or> on_conflict_clause v = ''ON CONFLICT DO NOTHING'')"

definition key_taken :: "closure_row list \<Rightarrow> int \<Rightarrow> int \<Rightarrow> bool" where
  "key_taken rs p c = (\<exists>r \<in> set rs. parent_id r = p \<and> child_id r = c)"

text \<open>
  \<open>INSERT ... INTO closure (depth, child_id, parent_id) <selected rows>\<close>: each row takes
  the next id; a row whose key is taken is skipped by the ignoring forms and makes the
  plain \<open>INSERT\<close> fail with an integrity error. A failed statement changes nothing, so
  the caller keeps the table it had. SQL does not fix the order in which the selected
  rows arrive (which ids they take, and which of two selected rows with one key is the
  one kept); the model takes the order of the select list.
\<close>

fun insert_rows :: "bool \<Rightarrow> (int \<times> int \<times> int) list \<Rightarrow> closure_table \<Rightarrow> error + closure_table" where
  "insert_rows ign [] t = Inr t"
| "insert_rows ign ((d, c, p) # xs) t =
     (if key_taken (rows t) p c
      then (if ign then insert_rows ign xs t else Inl IntegrityError)
      else insert_rows ign xs
             (t\<lparr>rows := rows t @ [\<lparr>row_id = next_id t, parent_id = p, child_id = c, depth = d\<rparr>],
                next_id := next_id t + 1\<rparr>))"

definition closure_createlink :: "vendor \<Rightarrow> node \<Rightarrow> closure_table \<Rightarrow> error + closure_table" where
  "closure_createlink v self t =
     insert_rows (ignores_conflict v) (createlink_selects self (rows t)) t"

section \<open>Link deletion\<close>

definition closure_deletelink :: "node \<Rightarrow> closure_table \<Rightarrow> closure_table" where
  "closure_deletelink self t = t\<lparr>rows := filter (\<lambda>r. child_id r \<noteq> pk self) (rows t)\<rparr>"

section \<open>Resolving the parent\<close>

text \<open>
  Reading the parent attribute of a node goes through Django's foreign-key descriptor:
  a NULL parent id gives \<open>None\<close>, any other id is looked up in the node table, and a
  missing row raises \<open>ObjectDoesNotExist\<close>. The descriptor's per-instance cache is not
  part of the model: every read is resolved against the table.
\<close>

definition get_parent :: "node list \<Rightarrow> int option \<Rightarrow> error + node option" where
  "get_parent ns pid =
     (case pid of
        None \<Rightarrow> Inr None
      | Some p \<Rightarrow>
          (case find (\<lambda>m. pk m = p) ns of
             None \<Rightarrow> Inl ObjectDoesNotExist
           | Some m \<Rightarrow> Inr (Some m)))"

text \<open>
  \<open>_closure_parent\<close>: \<open>result = None; try: result = getattr(...) except
  ObjectDoesNotExist: pass; return result\<close>. Any other exception is not caught.
\<close>

definition closure_parent_of :: "node list \<Rightarrow> int option \<Rightarrow> error + node option" where
  "closure_parent_of ns pid =
     (case get_parent ns pid of
        Inl e \<Rightarrow> (if e = ObjectDoesNotExist then Inr None else Inl e)
      | Inr r \<Rightarrow> Inr r)"

definition closure_parent :: "node list \<Rightarrow> node \<Rightarrow> error + node option" where
  "closure_parent ns self = closure_parent_of ns (parent_pk self)"

text \<open>
  The \<open>pre_save\<close> receiver \<open>closure_model_set_level\<close>. It reads the parent attribute
  directly, outside \<open>_closure_parent\<close>. \<open>parent.level\<close> on \<open>None\<close> would be an
  attribute error; \<open>get_parent\<close> gives no \<open>None\<close> for a true parent id.
\<close>

definition closure_model_set_level :: "node list \<Rightarrow> node \<Rightarrow> error + node" where
  "closure_model_set_level ns instance =
     (if truthy (parent_pk instance)
      then (case get_parent ns (parent_pk instance) of
              Inl e \<Rightarrow> Inl e
            | Inr None \<Rightarrow> Inl AttributeError
            | Inr (Some parent) \<Rightarrow> Inr (instance\<lparr>level := level parent + 1\<rparr>))
      else Inr (instance\<lparr>level := 0\<rparr>))"

section \<open>Queries\<close>

text \<open>
  \<open>is_descendant_of\<close>: the query set is over the closure model, so \<open>exclude(pk=self.pk)\<close>
  compares the closure row's own id with the node's primary key.
\<close>

definition is_descendant_of :: "closure_table \<Rightarrow> node \<Rightarrow> node \<Rightarrow> bool \<Rightarrow> bool" where
  "is_descendant_of t self other include_self =
     (if pk other = pk self then include_self
      else (\<exists>r \<in> set (rows t).
              parent_id r = pk other \<and> child_id r = pk self \<and> row_id r \<noteq> pk self))"

text \<open>\<open>is_root_node\<close>: \<open>return self._closure_parent_pk is None\<close>.\<close>

definition is_root_node :: "node \<Rightarrow> bool" where
  "is_root_node self = (parent_pk self = None)"

definition is_ancestor_of :: "closure_table \<Rightarrow> node \<Rightarrow> node \<Rightarrow> bool \<Rightarrow> bool" where
  "is_ancestor_of t self other include_self = is_descendant_of t other self include_self"

text \<open>
  Modelled from the spec: the manager \<open>objects\<close> is \<open>managers.CttManager()\<close>, and
  managers.py is not among the sources. It is taken to be the NodeStore of section 6 of
  the specification: it gives every node of the table, and \<open>order_by('level')\<close> on it
  is \<open>iterateAllOrderedByLevel\<close>, all nodes in ascending level order.
\<close>

definition objects_all :: "db \<Rightarrow> node list" where
  "objects_all d = node_table d"

definition objects_order_by_level :: "db \<Rightarrow> node list" where
  "objects_order_by_level d = sort_key level (objects_all d)"

text \<open>
  \<open>get_descendants\<close> joins the node table with the closure rows whose parent is the node
  (optionally with \<open>depth <= depth\<close>), drops the node itself unless \<open>include_self\<close>, and
  orders by the closure depth. \<open>.order_by('level')\<close> on the same query set replaces that
  ordering by the node level. SQL leaves the order of equal keys open; the model takes
  the order of the node table (a stable sort).
\<close>

definition descendants_join :: "db \<Rightarrow> node \<Rightarrow> bool \<Rightarrow> int option \<Rightarrow> (node \<times> closure_row) list" where
  "descendants_join d self include_self dmax =
     concat (map (\<lambda>m. map (\<lambda>r. (m, r))
                   (filter (\<lambda>r. child_id r = pk m \<and> parent_id r = pk self
                               \<and> (case dmax of None \<Rightarrow> True | Some k \<Rightarrow> depth r \<le> k)
                               \<and> (include_self \<or> pk m \<noteq> pk self))
                      (rows (closure d))))
             (objects_all d))"

definition get_descendants :: "db \<Rightarrow> node \<Rightarrow> bool \<Rightarrow> int option \<Rightarrow> node list" where
  "get_descendants d self include_self dmax =
     map fst (sort_key (\<lambda>mr. depth (snd mr)) (descendants_join d self include_self dmax))"

definition get_descendants_by_level :: "db \<Rightarrow> node \<Rightarrow> bool \<Rightarrow> int option \<Rightarrow> node list" where
  "get_descendants_by_level d self include_self dmax =
     sort_key level (map fst (descendants_join d self include_self dmax))"

section \<open>Reparent update and rebuild\<close>

text \<open>
  \<open>new_level = new_parent.level if new_parent is not None else 0\<close>, the same for the old
  parent, and \<open>leveldiff = new_level - old_level\<close>.
\<close>

definition closure_leveldiff :: "node option \<Rightarrow> node option \<Rightarrow> int" where
  "closure_leveldiff new_parent old_parent =
     (let new_level = (case new_parent of None \<Rightarrow> 0 | Some p \<Rightarrow> level p);
          old_level = (case old_parent of None \<Rightarrow> 0 | Some p \<Rightarrow> level p)
      in new_level - old_level)"

text \<open>
  The level delta in the words of the specification (section 4.3, step 1): the new
  parent's level plus one, or 0 without a new parent, minus the old level of the node.
\<close>

definition spec_level_delta :: "node option \<Rightarrow> int \<Rightarrow> int" where
  "spec_level_delta new_parent old_level =
     (case new_parent of None \<Rightarrow> 0 | Some p \<Rightarrow> level p + 1) - old_level"

text \<open>\<open>queryset.update(level=F('level') + leveldiff)\<close> on the nodes with the given keys.\<close>

definition update_level :: "int list \<Rightarrow> int \<Rightarrow> node list \<Rightarrow> node list" where
  "update_level ids leveldiff ns =
     map (\<lambda>m. if pk m \<in> set ids then m\<lparr>level := level m + leveldiff\<rparr> else m) ns"

text \<open>\<open>filter(child_id__in=...).delete()\<close> on the closure table.\<close>

definition delete_child_in :: "int list \<Rightarrow> closure_table \<Rightarrow> closure_table" where
  "delete_child_in ids t = t\<lparr>rows := filter (\<lambda>r. child_id r \<notin> set ids) (rows t)\<rparr>"

text \<open>
  \<open>for item in ...: item._closure_createlink()\<close>. Nothing wraps the loop in a transaction:
  an error leaves the rows written so far. The result is the error, if any, and the
  table reached.
\<close>

fun createlink_each :: "vendor \<Rightarrow> node list \<Rightarrow> closure_table \<Rightarrow> error option \<times> closure_table" where
  "createlink_each v [] t = (None, t)"
| "createlink_each v (item # items) t =
     (case closure_createlink v item t of
        Inl e \<Rightarrow> (Some e, t)
      | Inr t' \<Rightarrow> createlink_each v items t')"

text \<open>
  \<open>_closure_update_links\<close>, called by the \<open>post_save\<close> receiver on the saved instance
  whose \<open>_closure_old_parent\<close> is \<open>old_parent\<close>. The two \<open>get_descendants\<close> query sets are
  lazy: \<open>cached_subtree\<close> is read first, the level update and the delete evaluate their
  query set when they run. The name \<open>F\<close> is looked up in the module's globals when the
  line with the update runs; the first argument says whether the module binds it.
\<close>

definition closure_update_links ::
    "bool \<Rightarrow> vendor \<Rightarrow> db \<Rightarrow> node \<Rightarrow> node option \<Rightarrow> error option \<times> db" where
  "closure_update_links f_bound v d self old_parent =
     (case closure_parent (node_table d) self of
        Inl e \<Rightarrow> (Some e, d)
      | Inr new_parent \<Rightarrow>
          (let cached_subtree = self # get_descendants_by_level d self False None;
               leveldiff = closure_leveldiff new_parent old_parent
           in if \<not> f_bound then (Some NameError, d)
              else
                (let d1 = d\<lparr>node_table :=
                             update_level (map pk (get_descendants_by_level d self False None))
                               leveldiff (node_table d)\<rparr>;
                     d2 = d1\<lparr>closure :=
                             delete_child_in (map pk (get_descendants d1 self True None))
                               (closure d1)\<rparr>;
                     res = createlink_each v cached_subtree (closure d2)
                 in (fst res, d2\<lparr>closure := snd res\<rparr>))))"

text \<open>
  The import lines of models.py bind \<open>ObjectDoesNotExist\<close>, \<open>models\<close>, \<open>connection\<close>,
  \<open>ModelBase\<close>, the three signals, \<open>receiver\<close>, \<open>with_metaclass\<close>, \<open>managers\<close>, \<open>sys\<close>
  and \<open>uuid\<close>; nothing binds \<open>F\<close>.
\<close>

definition module_binds_F :: bool where
  "module_binds_F = False"

text \<open>
  \<open>rebuildtable\<close>: delete every closure row, then create the links of every node in
  ascending level order.
\<close>

definition rebuildtable :: "vendor \<Rightarrow> db \<Rightarrow> error option \<times> db" where
  "rebuildtable v d =
     (let t0 = (closure d)\<lparr>rows := []\<rparr>;
          res = createlink_each v (objects_order_by_level d) t0
      in (fst res, d\<lparr>closure := snd res\<rparr>))"

text \<open>The closure rows of a set of nodes (rows whose child is one of them).\<close>

definition links_of_children :: "int set \<Rightarrow> closure_table \<Rightarrow> (int \<times> int \<times> int) set" where
  "links_of_children S t = {l \<in> links t. fst (snd l) \<in> S}"

section \<open>Change tracking in \<open>__setattr__\<close>\<close>



















section \<open>Prepopulating the children\<close>

text \<open>
  \<open>hashobjs = dict([(x.pk, x) for x in objs] + [(self.pk, self)])\<close>: a later pair
  replaces an earlier one with the same key. The \<open>_cached_children\<close> lists of the
  objects in \<open>hashobjs\<close> are kept as a second dictionary under the same keys.
\<close>

definition hashobjs :: "node \<Rightarrow> node list \<Rightarrow> (int \<Rightarrow> node option)" where
  "hashobjs self objs = map_of (rev (map (\<lambda>x. (pk x, x)) objs @ [(pk self, self)]))"

fun attach_children ::
    "(int \<Rightarrow> node option) \<Rightarrow> node list \<Rightarrow> (int \<Rightarrow> node list option) \<Rightarrow> error + (int \<Rightarrow> node list option)" where
  "attach_children h [] cached = Inr cached"
| "attach_children h (descendant # objs) cached =
     (case parent_pk descendant of
        None \<Rightarrow> Inl AssertionError
      | Some p \<Rightarrow>
          (case h p of
             None \<Rightarrow> Inl AssertionError
           | Some parent \<Rightarrow>
               (case cached p of
                  None \<Rightarrow> Inl AttributeError
                | Some cs \<Rightarrow> attach_children h objs (cached(p \<mapsto> cs @ [descendant])))))"

definition prepopulate :: "node \<Rightarrow> node list \<Rightarrow> error + (int \<Rightarrow> node list option)" where
  "prepopulate self queryset =
     (let objs = queryset;
          h = hashobjs self objs
      in attach_children h objs (\<lambda>k. case h k of None \<Rightarrow> None | Some x \<Rightarrow> Some []))"

section \<open>Selected rows as keys and links\<close>

text \<open>A selected row (depth, child_id, parent_id): its unique key and its link.\<close>

definition sel_key :: "int \<times> int \<times> int \<Rightarrow> int \<times> int" where
  "sel_key x = (snd (snd x), fst (snd x))"

definition sel_link :: "int \<times> int \<times> int \<Rightarrow> int \<times> int \<times> int" where
  "sel_link x = (snd (snd x), fst (snd x), fst x)"

section \<open>Notions used in the statements\<close>



text \<open>The supplied descendants whose parent id is \<open>k\<close>, in the order supplied.\<close>

definition children_of :: "node list \<Rightarrow> int \<Rightarrow> node list" where
  "children_of objs k = filter (\<lambda>d. parent_pk d = Some k) objs"

section \<open>Example data\<close>

definition mk_row :: "int \<Rightarrow> int \<Rightarrow> int \<Rightarrow> int \<Rightarrow> closure_row" where
  "mk_row i p c d = \<lparr>row_id = i, parent_id = p, child_id = c, depth = d\<rparr>"

definition mk_node :: "int \<Rightarrow> int option \<Rightarrow> int \<Rightarrow> node" where
  "mk_node i p l = \<lparr>pk = i, parent_pk = p, level = l\<rparr>"

text \<open>
  The chain 1 \<leftarrow> 2 \<leftarrow> 3 with its closure rows, after node 2 has been made a root and
  saved (the \<open>pre_save\<close> receiver has set its level to 0); node 3 still has level 2.
\<close>

definition chain_db :: db where
  "chain_db = \<lparr>node_table = [mk_node 1 None 0, mk_node 2 None 0, mk_node 3 (Some 2) 2],
     closure = \<lparr>rows = [mk_row 1 1 1 0, mk_row 2 2 2 0, mk_row 3 1 2 1,
                          mk_row 4 3 3 0, mk_row 5 2 3 1, mk_row 6 1 3 2], next_id = 7\<rparr>\<rparr>"

text \<open>
  Node 2 was a root with the child 1, node 3 is another root. Node 2 has been moved
  under node 3 and saved (level 1); the closure rows are still those of the old tree.
\<close>

definition moved_db :: db where
  "moved_db = \<lparr>node_table = [mk_node 1 (Some 2) 1, mk_node 2 (Some 3) 1, mk_node 3 None 0],
     closure = \<lparr>rows = [mk_row 1 1 1 0, mk_row 2 2 2 0, mk_row 3 2 1 1, mk_row 4 3 3 0],
                next_id = 5\<rparr>\<rparr>"

definition relinked_db :: db where
  "relinked_db = \<lparr>node_table = [mk_node 1 (Some 2) 1, mk_node 2 (Some 3) 1, mk_node 3 None 0],
     closure = \<lparr>rows = [mk_row 4 3 3 0, mk_row 5 2 2 0, mk_row 6 3 2 1,
                          mk_row 7 1 1 0, mk_row 8 2 1 1, mk_row 9 3 1 2], next_id = 10\<rparr>\<rparr>"

text \<open>
  Scenario 4 of the specification: the chain 1 \<leftarrow> 2 \<leftarrow> 3 with its closure rows, after
  node 3 has been moved directly under node 1 and saved (level 1).
\<close>

definition scenario_db :: db where
  "scenario_db = \<lparr>node_table = [mk_node 1 None 0, mk_node 2 (Some 1) 1, mk_node 3 (Some 1) 1],
     closure = \<lparr>rows = [mk_row 1 1 1 0, mk_row 2 2 2 0, mk_row 3 1 2 1,
                          mk_row 4 3 3 0, mk_row 5 2 3 1, mk_row 6 1 3 2], next_id = 7\<rparr>\<rparr>"




section \<open>The insert statement\<close>

lemma key_taken_append:
  "key_taken (rs @ [r]) p c = (key_taken rs p c \<or> (parent_id r = p \<and> child_id r = c))"
  by (auto simp: key_taken_def)

lemma insert_rows_ignore_total: "\<exists>t'. insert_rows True xs t = Inr t'"
  by (induction xs arbitrary: t) auto

lemma insert_rows_all_taken:
  "\<forall>x \<in> set xs. key_taken (rows t) (snd (snd x)) (fst (snd x)) \<Longrightarrow> insert_rows True xs t = Inr t"
  by (induction xs) auto

text \<open>A successful insert only appends rows, and each appended row is a selected one.\<close>

lemma insert_rows_grows:
  "insert_rows ign xs t = Inr t' \<Longrightarrow>
     \<exists>ys. rows t' = rows t @ ys \<and> (\<forall>r \<in> set ys. (depth r, child_id r, parent_id r) \<in> set xs)"
proof (induction xs arbitrary: t)
  case Nil
  then show ?case by simp
next
  case (Cons x xs)
  obtain d c p where x: "x = (d, c, p)" by (cases x) auto
  show ?case
  proof (cases "key_taken (rows t) p c")
    case True
    with Cons.prems x have "insert_rows ign xs t = Inr t'" by (auto split: if_splits)
    from Cons.IH[OF this] show ?thesis by auto
  next
    case False
    let ?t1 = "t\<lparr>rows := rows t @ [\<lparr>row_id = next_id t, parent_id = p, child_id = c, depth = d\<rparr>],
                next_id := next_id t + 1\<rparr>"
    from False Cons.prems x have "insert_rows ign xs ?t1 = Inr t'" by simp
    from Cons.IH[OF this] obtain ys where
      ys: "rows t' = rows ?t1 @ ys" "\<forall>r \<in> set ys. (depth r, child_id r, parent_id r) \<in> set xs"
      by blast
    then show ?thesis using x by auto
  qed
qed

text \<open>After a successful insert the key of every selected row is in the table.\<close>

lemma insert_rows_keys_present:
  "insert_rows ign xs t = Inr t' \<Longrightarrow> (d, c, p) \<in> set xs \<Longrightarrow> key_taken (rows t') p c"
proof (induction xs arbitrary: t)
  case Nil
  then show ?case by simp
next
  case (Cons x xs)
  obtain d' c' p' where x: "x = (d', c', p')" by (cases x) auto
  let ?t1 = "t\<lparr>rows := rows t @ [\<lparr>row_id = next_id t, parent_id = p', child_id = c', depth = d'\<rparr>],
                next_id := next_id t + 1\<rparr>"
  have step: "insert_rows ign xs t = Inr t' \<and> key_taken (rows t) p' c' \<or>
              insert_rows ign xs ?t1 = Inr t' \<and> \<not> key_taken (rows t) p' c'"
    using Cons.prems(1) x by (auto split: if_splits)
  show ?case
  proof (cases "(d, c, p) \<in> set xs")
    case True
    with step Cons.IH show ?thesis by blast
  next
    case False
    with Cons.prems(2) x have eq: "d' = d" "c' = c" "p' = p" by auto
    from step show ?thesis
    proof
      assume a: "insert_rows ign xs t = Inr t' \<and> key_taken (rows t) p' c'"
      then obtain ys where "rows t' = rows t @ ys" using insert_rows_grows by blast
      with a eq show ?thesis by (auto simp: key_taken_def)
    next
      assume a: "insert_rows ign xs ?t1 = Inr t' \<and> \<not> key_taken (rows t) p' c'"
      then obtain ys where "rows t' = rows ?t1 @ ys" using insert_rows_grows by blast
      with eq show ?thesis by (auto simp: key_taken_def)
    qed
  qed
qed

text \<open>
  Rows with pairwise different keys, none of them in the table: every form of the
  statement inserts them all.
\<close>

lemma insert_rows_fresh:
  "distinct (map sel_key xs) \<Longrightarrow> \<forall>x \<in> set xs. \<not> key_taken (rows t) (snd (snd x)) (fst (snd x)) \<Longrightarrow>
   \<exists>t'. insert_rows ign xs t = Inr t' \<and> links t' = links t \<union> sel_link ` set xs"
proof (induction xs arbitrary: t)
  case Nil
  then show ?case by simp
next
  case (Cons x xs)
  obtain d c p where x: "x = (d, c, p)" by (cases x) auto
  let ?t1 = "t\<lparr>rows := rows t @ [\<lparr>row_id = next_id t, parent_id = p, child_id = c, depth = d\<rparr>],
                next_id := next_id t + 1\<rparr>"
  have nt: "\<not> key_taken (rows t) p c" using Cons.prems(2) x by simp
  have d: "distinct (map sel_key xs)" using Cons.prems(1) by simp
  have fresh: "\<forall>y \<in> set xs. \<not> key_taken (rows ?t1) (snd (snd y)) (fst (snd y))"
  proof
    fix y assume y: "y \<in> set xs"
    then have "sel_key y \<in> sel_key ` set xs" by (rule imageI)
    moreover have "sel_key x \<notin> sel_key ` set xs" using Cons.prems(1) by simp
    ultimately have "sel_key y \<noteq> sel_key x" by metis
    moreover have "\<not> key_taken (rows t) (snd (snd y)) (fst (snd y))" using Cons.prems(2) y by simp
    ultimately show "\<not> key_taken (rows ?t1) (snd (snd y)) (fst (snd y))"
      using x by (auto simp: key_taken_append sel_key_def)
  qed
  from Cons.IH[OF d fresh] obtain t' where
    t': "insert_rows ign xs ?t1 = Inr t'" "links t' = links ?t1 \<union> sel_link ` set xs" by blast
  have "links ?t1 = links t \<union> {sel_link x}"
    using x by (auto simp: links_def link_def sel_link_def)
  with t' nt x show ?case by auto
qed

section \<open>The rows selected by link creation\<close>

lemma selects_set:
  "set (createlink_selects self rs) =
     insert (0, pk self, pk self)
       {(depth r + 1, pk self, parent_id r) | r p.
          parent_pk self = Some p \<and> p \<noteq> 0 \<and> r \<in> set rs \<and> child_id r = p}"
  by (auto simp: createlink_selects_def truthy_def split: option.splits)

lemma selects_child:
  "x \<in> set (createlink_selects self rs) \<Longrightarrow> fst (snd x) = pk self"
  by (auto simp: selects_set)

lemma selects_links:
  "sel_link ` set (createlink_selects self (rows t)) =
     {(pk self, pk self, 0)} \<union>
     {(a, pk self, d + 1) | a d p. parent_pk self = Some p \<and> p \<noteq> 0 \<and> (a, p, d) \<in> links t}"
  by (auto simp: selects_set sel_link_def links_def link_def image_iff)

lemma unique_rows_eq:
  assumes "unique_together t" "r \<in> set (rows t)" "r' \<in> set (rows t)"
    "parent_id r = parent_id r'" "child_id r = child_id r'"
  shows "r = r'"
proof -
  have "inj_on row_key (set (rows t))"
    using assms(1) by (simp add: unique_together_def distinct_map)
  moreover have "row_key r = row_key r'" using assms(4,5) by (simp add: row_key_def)
  ultimately show ?thesis using assms(2,3) by (auto dest: inj_onD)
qed

text \<open>
  In a table that satisfies its unique key and in which the node is not an ancestor of
  its own parent, the selected rows have pairwise different keys.
\<close>

lemma selects_distinct_keys:
  assumes uniq: "unique_together t"
    and nocycle: "\<forall>r \<in> set (rows t). \<not> (parent_id r = pk self \<and> Some (child_id r) = parent_pk self)"
  shows "distinct (map sel_key (createlink_selects self (rows t)))"
proof -
  let ?S = "createlink_selects self (rows t)"
  have "inj_on sel_key (set ?S)"
  proof (rule inj_onI)
    fix x y assume x: "x \<in> set ?S" and y: "y \<in> set ?S" and k: "sel_key x = sel_key y"
    have anc: "\<exists>r p. parent_pk self = Some p \<and> r \<in> set (rows t) \<and> child_id r = p \<and>
                 z = (depth r + 1, pk self, parent_id r)"
      if "z \<in> set ?S" "z \<noteq> (0, pk self, pk self)" for z
      using that by (auto simp: selects_set)
    show "x = y"
    proof (cases "x = (0, pk self, pk self)")
      case xs: True
      show ?thesis
      proof (cases "y = (0, pk self, pk self)")
        case True
        with xs show ?thesis by simp
      next
        case False
        from anc[OF y False] obtain r p where
          "parent_pk self = Some p" "r \<in> set (rows t)" "child_id r = p"
          "y = (depth r + 1, pk self, parent_id r)" by blast
        with k xs nocycle show ?thesis by (auto simp: sel_key_def)
      qed
    next
      case xn: False
      from anc[OF x xn] obtain r p where
        r: "parent_pk self = Some p" "r \<in> set (rows t)" "child_id r = p"
           "x = (depth r + 1, pk self, parent_id r)" by blast
      show ?thesis
      proof (cases "y = (0, pk self, pk self)")
        case True
        with k r nocycle show ?thesis by (auto simp: sel_key_def)
      next
        case False
        from anc[OF y False] obtain r' p' where
          r': "parent_pk self = Some p'" "r' \<in> set (rows t)" "child_id r' = p'"
              "y = (depth r' + 1, pk self, parent_id r')" by blast
        have "parent_id r = parent_id r'" using k r(4) r'(4) by (simp add: sel_key_def)
        moreover have "child_id r = child_id r'" using r(1,3) r'(1,3) by simp
        ultimately have "r = r'" using unique_rows_eq[OF uniq r(2) r'(2)] by simp
        with r(4) r'(4) show ?thesis by simp
      qed
    qed
  qed
  moreover have "distinct ?S" by (simp add: createlink_selects_def)
  ultimately show ?thesis by (simp add: distinct_map)
qed

lemma ignores_conflict_vendors: "ignores_conflict v = (v \<noteq> OtherVendor)"
  by (cases v) (simp_all add: ignores_conflict_def)

lemma createlink_ignore_total:
  "ignores_conflict v \<Longrightarrow> \<exists>t'. closure_createlink v self t = Inr t'"
  using insert_rows_ignore_total by (simp add: closure_createlink_def)

text \<open>
  After one call, the key of every row that a second call selects is taken: the row
  comes from the self-link, from an ancestor row that the first call saw, or from an
  ancestor row that the first call wrote, whose child is then the node itself.
\<close>

lemma createlink_second_all_taken:
  assumes first: "closure_createlink v self t = Inr t1"
    and x: "x \<in> set (createlink_selects self (rows t1))"
  shows "key_taken (rows t1) (snd (snd x)) (fst (snd x))"
proof -
  let ?S1 = "createlink_selects self (rows t)"
  have ins: "insert_rows (ignores_conflict v) ?S1 t = Inr t1"
    using first by (simp add: closure_createlink_def)
  from insert_rows_grows[OF ins] obtain ys where
    ys: "rows t1 = rows t @ ys" "\<forall>r \<in> set ys. (depth r, child_id r, parent_id r) \<in> set ?S1"
    by blast
  have present: "key_taken (rows t1) p c" if "(d, c, p) \<in> set ?S1" for d c p
    using insert_rows_keys_present[OF ins that] .
  show ?thesis
  proof (cases "x = (0, pk self, pk self)")
    case True
    have "(0, pk self, pk self) \<in> set ?S1" by (simp add: selects_set)
    from present[OF this] True show ?thesis by simp
  next
    case False
    with x obtain r p where r: "parent_pk self = Some p" "p \<noteq> 0" "r \<in> set (rows t1)"
      "child_id r = p" "x = (depth r + 1, pk self, parent_id r)"
      by (auto simp: selects_set)
    show ?thesis
    proof (cases "r \<in> set (rows t)")
      case True
      with r have "(depth r + 1, pk self, parent_id r) \<in> set ?S1"
        by (auto simp: selects_set)
      from present[OF this] r(5) show ?thesis by simp
    next
      case False
      with r(3) ys(1) have "r \<in> set ys" by simp
      with ys(2) have "(depth r, child_id r, parent_id r) \<in> set ?S1" by blast
      then have "child_id r = pk self" by (auto dest: selects_child)
      with r(3,5) show ?thesis by (auto simp: key_taken_def)
    qed
  qed
qed

section \<open>The scenarios of the specification\<close>

text \<open>
  Scenarios 1 to 3: the root 1, then 2 under 1, then 3 under 2, each linked when it is
  created. The closure is (1,1,0), (2,2,0), (1,2,1), (3,3,0), (2,3,1), (1,3,2).
\<close>

lemma scenarios_1_to_3:
  "createlink_each Sqlite [mk_node 1 None 0, mk_node 2 (Some 1) 1, mk_node 3 (Some 2) 2]
     \<lparr>rows = [], next_id = 1\<rparr>
   = (None, \<lparr>rows = [mk_row 1 1 1 0, mk_row 2 2 2 0, mk_row 3 1 2 1,
                       mk_row 4 3 3 0, mk_row 5 2 3 1, mk_row 6 1 3 2], next_id = 7\<rparr>)"
  by code_simp

text \<open>
  Scenario 4, with \<open>F\<close> bound: node 3 moves from parent 2 to parent 1. Both parents are
  present, the rows (1,3,2) and (2,3,1) give way to (1,3,1), a rebuild yields the same
  links, and node 3 is no longer a descendant of node 2.
\<close>

lemma scenario_4:
  "closure_update_links True Sqlite scenario_db (mk_node 3 (Some 1) 1) (Some (mk_node 2 (Some 1) 1))
     = (None, scenario_db\<lparr>closure := \<lparr>rows = [mk_row 1 1 1 0, mk_row 2 2 2 0, mk_row 3 1 2 1,
                                               mk_row 7 3 3 0, mk_row 8 1 3 1], next_id = 9\<rparr>\<rparr>)
   \<and> links (closure (snd (rebuildtable Sqlite scenario_db)))
       = links \<lparr>rows = [mk_row 1 1 1 0, mk_row 2 2 2 0, mk_row 3 1 2 1,
                         mk_row 7 3 3 0, mk_row 8 1 3 1], next_id = 9\<rparr>
   \<and> \<not> is_descendant_of \<lparr>rows = [mk_row 1 1 1 0, mk_row 2 2 2 0, mk_row 3 1 2 1,
                         mk_row 7 3 3 0, mk_row 8 1 3 1], next_id = 9\<rparr>
         (mk_node 3 (Some 1) 1) (mk_node 2 (Some 1) 1) False"
  by code_simp

section \<open>Link deletion: the rows removed and the rows kept\<close>

text \<open>
  C7. For every node N, \<open>_closure_deletelink\<close> removes exactly the closure rows whose
  child is N: the rows left are the rows of the table whose child is another node, so
  every row whose parent is N and whose child is a different node is still there. The
  id sequence is untouched.
\<close>

theorem deletelink_removes_child_rows:
  "set (rows (closure_deletelink self t)) = {r \<in> set (rows t). child_id r \<noteq> pk self}
   \<and> (\<forall>r \<in> set (rows t). parent_id r = pk self \<and> child_id r \<noteq> pk self
         \<longrightarrow> r \<in> set (rows (closure_deletelink self t)))
   \<and> next_id (closure_deletelink self t) = next_id t"
  by (auto simp: closure_deletelink_def)

theorem deletelink_removes_child_rows_witness:
  "\<lparr>row_id = 3, parent_id = 1, child_id = 2, depth = 1\<rparr>
     \<in> set (rows (closure_deletelink \<lparr>pk = 1, parent_pk = None, level = 0\<rparr>
          \<lparr>rows = [\<lparr>row_id = 1, parent_id = 1, child_id = 1, depth = 0\<rparr>,
                   \<lparr>row_id = 2, parent_id = 2, child_id = 2, depth = 0\<rparr>,
                   \<lparr>row_id = 3, parent_id = 1, child_id = 2, depth = 1\<rparr>], next_id = 4\<rparr>))
   \<and> \<lparr>row_id = 1, parent_id = 1, child_id = 1, depth = 0\<rparr>
     \<notin> set (rows (closure_deletelink \<lparr>pk = 1, parent_pk = None, level = 0\<rparr>
          \<lparr>rows = [\<lparr>row_id = 1, parent_id = 1, child_id = 1, depth = 0\<rparr>,
                   \<lparr>row_id = 2, parent_id = 2, child_id = 2, depth = 0\<rparr>,
                   \<lparr>row_id = 3, parent_id = 1, child_id = 2, depth = 1\<rparr>], next_id = 4\<rparr>))"
  using deletelink_removes_child_rows
    [of "\<lparr>pk = 1, parent_pk = None, level = 0\<rparr>"
        "\<lparr>rows = [\<lparr>row_id = 1, parent_id = 1, child_id = 1, depth = 0\<rparr>,
                   \<lparr>row_id = 2, parent_id = 2, child_id = 2, depth = 0\<rparr>,
                   \<lparr>row_id = 3, parent_id = 1, child_id = 2, depth = 1\<rparr>], next_id = 4\<rparr>"]
  by simp

section \<open>Link creation: the rows inserted\<close>

text \<open>
  What \<open>_closure_createlink\<close> does for any parent id. The rows selected for the insert
  are the self-link (node, node, 0) and, for every closure row (ancestor, parent, d)
  whose child is the node's parent id, the row (ancestor, node, d + 1); the second part
  is selected only when the parent id is true in Python's sense, so neither \<open>None\<close>
  nor 0. When the table satisfies its unique key, holds no row with the node as child
  and none that makes the node an ancestor of its own parent, the statement succeeds on
  every backend and the table gains exactly the selected rows.
\<close>

theorem createlink_inserted_rows:
  "sel_link ` set (createlink_selects self (rows t)) =
     {(pk self, pk self, 0)} \<union>
     {(a, pk self, d + 1) | a d p. parent_pk self = Some p \<and> p \<noteq> 0 \<and> (a, p, d) \<in> links t}
   \<and> (unique_together t
        \<and> (\<forall>r \<in> set (rows t). child_id r \<noteq> pk self)
        \<and> (\<forall>r \<in> set (rows t). \<not> (parent_id r = pk self \<and> Some (child_id r) = parent_pk self))
      \<longrightarrow> (\<exists>t'. closure_createlink v self t = Inr t' \<and>
                 links t' = links t \<union> {(pk self, pk self, 0)} \<union>
                   {(a, pk self, d + 1) | a d p.
                      parent_pk self = Some p \<and> p \<noteq> 0 \<and> (a, p, d) \<in> links t}))"
proof (intro conjI impI)
  show "sel_link ` set (createlink_selects self (rows t)) =
     {(pk self, pk self, 0)} \<union>
     {(a, pk self, d + 1) | a d p. parent_pk self = Some p \<and> p \<noteq> 0 \<and> (a, p, d) \<in> links t}"
    by (rule selects_links)
next
  assume h: "unique_together t
        \<and> (\<forall>r \<in> set (rows t). child_id r \<noteq> pk self)
        \<and> (\<forall>r \<in> set (rows t). \<not> (parent_id r = pk self \<and> Some (child_id r) = parent_pk self))"
  let ?S = "createlink_selects self (rows t)"
  have nt: "\<forall>x \<in> set ?S. \<not> key_taken (rows t) (snd (snd x)) (fst (snd x))"
    using h by (auto simp: key_taken_def dest: selects_child)
  have "distinct (map sel_key ?S)"
    using h selects_distinct_keys by blast
  from insert_rows_fresh[OF this nt]
  have "\<exists>t'. closure_createlink v self t = Inr t' \<and> links t' = links t \<union> sel_link ` set ?S"
    by (simp add: closure_createlink_def)
  then show "\<exists>t'. closure_createlink v self t = Inr t' \<and>
                 links t' = links t \<union> {(pk self, pk self, 0)} \<union>
                   {(a, pk self, d + 1) | a d p.
                      parent_pk self = Some p \<and> p \<noteq> 0 \<and> (a, p, d) \<in> links t}"
    unfolding selects_links by (simp add: Un_assoc)
qed

text \<open>Scenario 2 of the specification: B with parent A, on the table that holds A's self-link.\<close>

theorem createlink_inserted_rows_witness:
  "unique_together \<lparr>rows = [\<lparr>row_id = 1, parent_id = 1, child_id = 1, depth = 0\<rparr>], next_id = 2\<rparr>
   \<and> (\<exists>t'. closure_createlink Sqlite \<lparr>pk = 2, parent_pk = Some 1, level = 1\<rparr>
              \<lparr>rows = [\<lparr>row_id = 1, parent_id = 1, child_id = 1, depth = 0\<rparr>], next_id = 2\<rparr> = Inr t'
          \<and> links t' = {(1, 1, 0), (2, 2, 0), (1, 2, 1)})"
proof -
  let ?t = "\<lparr>rows = [\<lparr>row_id = 1, parent_id = 1, child_id = 1, depth = 0\<rparr>], next_id = 2\<rparr>"
  let ?n = "\<lparr>pk = 2, parent_pk = Some (1::int), level = 1\<rparr>"
  have u: "unique_together ?t" by (simp add: unique_together_def)
  have l: "links ?t = {(1, 1, 0)}" by (simp add: links_def link_def)
  have "unique_together ?t
          \<and> (\<forall>r \<in> set (rows ?t). child_id r \<noteq> pk ?n)
          \<and> (\<forall>r \<in> set (rows ?t). \<not> (parent_id r = pk ?n \<and> Some (child_id r) = parent_pk ?n))
        \<longrightarrow> (\<exists>t'. closure_createlink Sqlite ?n ?t = Inr t' \<and>
               links t' = links ?t \<union> {(pk ?n, pk ?n, 0)} \<union>
                   {(a, pk ?n, d + 1) | a d p.
                      parent_pk ?n = Some p \<and> p \<noteq> 0 \<and> (a, p, d) \<in> links ?t})"
    using createlink_inserted_rows[of ?n ?t Sqlite] by (rule conjunct2)
  with u obtain t' where t': "closure_createlink Sqlite ?n ?t = Inr t'"
    "links t' = links ?t \<union> {(pk ?n, pk ?n, 0)} \<union>
                   {(a, pk ?n, d + 1) | a d p.
                      parent_pk ?n = Some p \<and> p \<noteq> 0 \<and> (a, p, d) \<in> links ?t}"
    by auto
  from t'(2) have "links t' = {(1, 1, 0), (2, 2, 0), (1, 2, 1)}"
    unfolding l by auto
  with t'(1) u show ?thesis by blast
qed

text \<open>
  C1 at a failing input. Node 0 is a root with its self-link (0, 0, 0). Node 5 has the
  parent id 0: it is not a root for \<open>is_root_node\<close>, and \<open>_closure_parent\<close> resolves
  node 0 as its parent. The \<open>pre_save\<close> receiver and \<open>_closure_createlink\<close> test the
  parent id with \<open>if parent_id:\<close>, which is false for 0: node 5 gets the level 0, and
  the only row inserted is its self-link. The row (0, 5, 1), which the closure row
  (0, 0, 0) of its parent calls for, is not written.
\<close>

theorem createlink_zero_parent_id:
  "\<not> is_root_node (mk_node 5 (Some 0) 1)
   \<and> closure_parent [mk_node 0 None 0] (mk_node 5 (Some 0) 1) = Inr (Some (mk_node 0 None 0))
   \<and> closure_model_set_level [mk_node 0 None 0] (mk_node 5 (Some 0) 1) = Inr (mk_node 5 (Some 0) 0)
   \<and> (0, 0, 0) \<in> links \<lparr>rows = [mk_row 1 0 0 0], next_id = 2\<rparr>
   \<and> closure_createlink Sqlite (mk_node 5 (Some 0) 0) \<lparr>rows = [mk_row 1 0 0 0], next_id = 2\<rparr>
      = Inr \<lparr>rows = [mk_row 1 0 0 0, mk_row 2 5 5 0], next_id = 3\<rparr>
   \<and> (0, 5, 1) \<notin> links \<lparr>rows = [mk_row 1 0 0 0, mk_row 2 5 5 0], next_id = 3\<rparr>"
  by code_simp

section \<open>Link creation: a second call\<close>

text \<open>
  C4, as the code has it. On the backends for which \<open>_closure_createlink\<close> writes an
  ignoring insert (\<open>sqlite\<close>, \<open>mysql\<close>, \<open>postgresql\<close>), a call never fails, and a second
  call for the same node on the table left by the first succeeds and leaves the rows
  as they are.
\<close>

theorem createlink_idempotent:
  assumes "ignores_conflict v"
  shows "\<exists>t1 t2. closure_createlink v self t = Inr t1 \<and> closure_createlink v self t1 = Inr t2
           \<and> rows t2 = rows t1"
proof -
  from createlink_ignore_total[OF assms] obtain t1 where
    t1: "closure_createlink v self t = Inr t1" by blast
  have "\<forall>x \<in> set (createlink_selects self (rows t1)).
          key_taken (rows t1) (snd (snd x)) (fst (snd x))"
    using createlink_second_all_taken[OF t1] by blast
  from insert_rows_all_taken[OF this] assms
  have "closure_createlink v self t1 = Inr t1" by (simp add: closure_createlink_def)
  with t1 show ?thesis by blast
qed

theorem createlink_idempotent_witness:
  "ignores_conflict Sqlite \<and>
   (\<exists>t1 t2. closure_createlink Sqlite \<lparr>pk = 2, parent_pk = Some 1, level = 1\<rparr>
               \<lparr>rows = [\<lparr>row_id = 1, parent_id = 1, child_id = 1, depth = 0\<rparr>], next_id = 2\<rparr> = Inr t1
            \<and> closure_createlink Sqlite \<lparr>pk = 2, parent_pk = Some 1, level = 1\<rparr> t1 = Inr t2
            \<and> rows t2 = rows t1)"
proof -
  have h: "ignores_conflict Sqlite" by (simp add: ignores_conflict_def)
  show ?thesis using h createlink_idempotent[OF h] by simp
qed

text \<open>
  On any other backend the statement is a plain \<open>INSERT\<close>: the first call for a new
  root node succeeds, the second fails on the duplicate key of the self-link.
\<close>

theorem createlink_plain_insert_duplicate:
  "\<not> ignores_conflict OtherVendor
   \<and> closure_createlink OtherVendor \<lparr>pk = 1, parent_pk = None, level = 0\<rparr> \<lparr>rows = [], next_id = 1\<rparr>
     = Inr \<lparr>rows = [\<lparr>row_id = 1, parent_id = 1, child_id = 1, depth = 0\<rparr>], next_id = 2\<rparr>
   \<and> closure_createlink OtherVendor \<lparr>pk = 1, parent_pk = None, level = 0\<rparr>
       \<lparr>rows = [\<lparr>row_id = 1, parent_id = 1, child_id = 1, depth = 0\<rparr>], next_id = 2\<rparr>
     = Inl IntegrityError"
  by (simp add: closure_createlink_def createlink_selects_def ignores_conflict_def key_taken_def)

text \<open>
  In general: on a backend with the plain \<open>INSERT\<close>, a second call on the table left
  by a successful first call always fails on a duplicate key.
\<close>

lemma createlink_plain_insert_second_fails:
  assumes "\<not> ignores_conflict v" and first: "closure_createlink v self t = Inr t1"
  shows "closure_createlink v self t1 = Inl IntegrityError"
proof -
  have "(0, pk self, pk self) \<in> set (createlink_selects self (rows t1))"
    by (simp add: selects_set)
  then obtain x xs where sel: "createlink_selects self (rows t1) = x # xs"
    by (cases "createlink_selects self (rows t1)") auto
  obtain d c p where x: "x = (d, c, p)" by (cases x) auto
  have "key_taken (rows t1) (snd (snd x)) (fst (snd x))"
    using createlink_second_all_taken[OF first, of x] sel by simp
  with x have "key_taken (rows t1) p c" by simp
  with assms(1) sel x show ?thesis by (simp add: closure_createlink_def)
qed

section \<open>Link creation when the parent has no rows\<close>

text \<open>
  C10, as the code has it. A node has a parent id, and no closure row has that parent
  as its child. If the node has no closure row other than its self-link (node, node, 0),
  and the backend writes an ignoring insert or the self-link is not in the table yet,
  then \<open>_closure_createlink\<close> returns without error, the self-link is the one row it
  inserts (it is skipped when already there), and the node has no ancestor rows
  afterwards: its only row is the self-link.
\<close>

theorem createlink_missing_parent_rows:
  assumes "parent_pk self = Some p"
    and "\<forall>r \<in> set (rows t). child_id r \<noteq> p"
    and own: "\<forall>r \<in> set (rows t). child_id r = pk self \<longrightarrow> link r = (pk self, pk self, 0)"
    and dup: "ignores_conflict v \<or> \<not> key_taken (rows t) (pk self) (pk self)"
  shows "\<exists>t'. closure_createlink v self t = Inr t'
           \<and> rows t' = (if key_taken (rows t) (pk self) (pk self) then rows t
                         else rows t @ [\<lparr>row_id = next_id t, parent_id = pk self,
                                          child_id = pk self, depth = 0\<rparr>])
           \<and> links t' = links t \<union> {(pk self, pk self, 0)}
           \<and> (\<forall>r \<in> set (rows t'). child_id r = pk self \<longrightarrow> link r = (pk self, pk self, 0))"
proof -
  have "filter (\<lambda>r. Some (child_id r) = parent_pk self) (rows t) = []"
    using assms(1,2) by (simp add: filter_empty_conv)
  then have sel: "createlink_selects self (rows t) = [(0, pk self, pk self)]"
    by (simp add: createlink_selects_def)
  show ?thesis
  proof (cases "key_taken (rows t) (pk self) (pk self)")
    case True
    with dup have ign: "ignores_conflict v" by simp
    from True obtain r where r: "r \<in> set (rows t)" "parent_id r = pk self" "child_id r = pk self"
      by (auto simp: key_taken_def)
    with own have "link r = (pk self, pk self, 0)" by blast
    with r(1) have "(pk self, pk self, 0) \<in> links t" by (force simp: links_def)
    then have "links t = links t \<union> {(pk self, pk self, 0)}" by auto
    moreover have "closure_createlink v self t = Inr t"
      using True ign sel by (simp add: closure_createlink_def)
    ultimately show ?thesis using True own by auto
  next
    case False
    let ?t' = "t\<lparr>rows := rows t @ [\<lparr>row_id = next_id t, parent_id = pk self,
                                     child_id = pk self, depth = 0\<rparr>],
                  next_id := next_id t + 1\<rparr>"
    have c: "closure_createlink v self t = Inr ?t'"
      using False sel by (simp add: closure_createlink_def)
    have l: "links ?t' = links t \<union> {(pk self, pk self, 0)}"
      by (auto simp: links_def link_def)
    have o: "\<forall>r \<in> set (rows ?t'). child_id r = pk self \<longrightarrow> link r = (pk self, pk self, 0)"
      using own by (auto simp: link_def)
    from c l o False show ?thesis by simp
  qed
qed

text \<open>
  Node 2 with the missing parent 7: a first call on a plain-insert backend, and a
  second call on sqlite with the self-link in the table.
\<close>

theorem createlink_missing_parent_rows_witness:
  "parent_pk (mk_node 2 (Some 7) 1) = Some 7
   \<and> (\<exists>t'. closure_createlink OtherVendor (mk_node 2 (Some 7) 1)
              \<lparr>rows = [mk_row 1 1 1 0], next_id = 2\<rparr> = Inr t'
          \<and> rows t' = [mk_row 1 1 1 0, mk_row 2 2 2 0])
   \<and> (\<exists>t'. closure_createlink Sqlite (mk_node 2 (Some 7) 1)
              \<lparr>rows = [mk_row 1 1 1 0, mk_row 2 2 2 0], next_id = 3\<rparr> = Inr t'
          \<and> rows t' = [mk_row 1 1 1 0, mk_row 2 2 2 0])"
proof -
  let ?n = "mk_node 2 (Some 7) 1"
  let ?t = "\<lparr>rows = [mk_row 1 1 1 0], next_id = 2\<rparr>"
  let ?u = "\<lparr>rows = [mk_row 1 1 1 0, mk_row 2 2 2 0], next_id = 3\<rparr>"
  have a: "parent_pk ?n = Some 7" by (simp add: mk_node_def)
  have b: "\<forall>r \<in> set (rows ?t). child_id r \<noteq> 7" by (simp add: mk_row_def)
  have c: "\<forall>r \<in> set (rows ?t). child_id r = pk ?n \<longrightarrow> link r = (pk ?n, pk ?n, 0)"
    by (simp add: mk_row_def mk_node_def link_def)
  have d: "ignores_conflict OtherVendor \<or> \<not> key_taken (rows ?t) (pk ?n) (pk ?n)"
    by (simp add: key_taken_def mk_row_def mk_node_def)
  have b': "\<forall>r \<in> set (rows ?u). child_id r \<noteq> 7" by (simp add: mk_row_def)
  have c': "\<forall>r \<in> set (rows ?u). child_id r = pk ?n \<longrightarrow> link r = (pk ?n, pk ?n, 0)"
    by (simp add: mk_row_def mk_node_def link_def)
  have d': "ignores_conflict Sqlite \<or> \<not> key_taken (rows ?u) (pk ?n) (pk ?n)"
    by (simp add: ignores_conflict_def)
  have k: "\<not> key_taken (rows ?t) (pk ?n) (pk ?n)" "key_taken (rows ?u) (pk ?n) (pk ?n)"
    by (simp_all add: key_taken_def mk_row_def mk_node_def)
  from createlink_missing_parent_rows[OF a b c d] k(1)
  have 1: "\<exists>t'. closure_createlink OtherVendor ?n ?t = Inr t'
          \<and> rows t' = [mk_row 1 1 1 0, mk_row 2 2 2 0]"
    by (auto simp: mk_row_def mk_node_def)
  from createlink_missing_parent_rows[OF a b' c' d'] k(2)
  have 2: "\<exists>t'. closure_createlink Sqlite ?n ?u = Inr t'
          \<and> rows t' = [mk_row 1 1 1 0, mk_row 2 2 2 0]"
    by (auto simp: mk_row_def mk_node_def)
  from a 1 2 show ?thesis by blast
qed

text \<open>
  The claim as written fails when the node already has rows. Node 2 has the parent id
  7, and no row has the child 7. With the self-link of node 2 in the table, the plain
  \<open>INSERT\<close> of another backend fails on the duplicate key. With the ancestor row
  (1, 2, 1) in the table, the call on sqlite adds the self-link and the ancestor row
  stays. With a row (2, 2, 5) under the self-link's key, the call on sqlite inserts
  nothing and the table has no self-link (2, 2, 0).
\<close>

theorem createlink_rows_of_node_present:
  "parent_pk (mk_node 2 (Some 7) 1) = Some 7
   \<and> closure_createlink OtherVendor (mk_node 2 (Some 7) 1) \<lparr>rows = [mk_row 1 2 2 0], next_id = 2\<rparr>
       = Inl IntegrityError
   \<and> closure_createlink Sqlite (mk_node 2 (Some 7) 1) \<lparr>rows = [mk_row 1 1 2 1], next_id = 2\<rparr>
       = Inr \<lparr>rows = [mk_row 1 1 2 1, mk_row 2 2 2 0], next_id = 3\<rparr>
   \<and> (1, 2, 1) \<in> links \<lparr>rows = [mk_row 1 1 2 1, mk_row 2 2 2 0], next_id = 3\<rparr>
   \<and> closure_createlink Sqlite (mk_node 2 (Some 7) 1) \<lparr>rows = [mk_row 1 2 2 5], next_id = 2\<rparr>
       = Inr \<lparr>rows = [mk_row 1 2 2 5], next_id = 2\<rparr>
   \<and> (2, 2, 0) \<notin> links \<lparr>rows = [mk_row 1 2 2 5], next_id = 2\<rparr>"
  by code_simp

section \<open>Membership queries\<close>

text \<open>
  When no closure row carries the node's primary key as its own id, \<open>is_descendant_of\<close>
  is the membership test on the closure rows.
\<close>

lemma is_descendant_of_no_collision:
  assumes "\<forall>r \<in> set (rows t). row_id r \<noteq> pk self"
  shows "is_descendant_of t self other include_self =
           ((pk other = pk self \<and> include_self) \<or>
            (pk other \<noteq> pk self \<and> (\<exists>d. (pk other, pk self, d) \<in> links t)))"
proof (cases "pk other = pk self")
  case True
  then show ?thesis by (simp add: is_descendant_of_def)
next
  case False
  have "(\<exists>r \<in> set (rows t). parent_id r = pk other \<and> child_id r = pk self \<and> row_id r \<noteq> pk self)
        = (\<exists>r \<in> set (rows t). parent_id r = pk other \<and> child_id r = pk self)"
    using assms by blast
  moreover have "(\<exists>d. (pk other, pk self, d) \<in> links t)
        = (\<exists>r \<in> set (rows t). parent_id r = pk other \<and> child_id r = pk self)"
    by (force simp: links_def link_def)
  ultimately show ?thesis using False by (simp add: is_descendant_of_def)
qed

text \<open>
  C6 at a failing input. Node 10 is created as a root, then node 3 with parent 10, both
  on an empty closure table. The row (10, 3, 1) is written with the row id 3, the
  primary key of node 3, and \<open>exclude(pk=self.pk)\<close> drops it: node 3 is not reported as
  a descendant of node 10 although the closure row with depth 1 exists.
\<close>

theorem is_descendant_of_row_id_collision:
  "closure_createlink Sqlite (mk_node 10 None 0) \<lparr>rows = [], next_id = 1\<rparr>
     = Inr \<lparr>rows = [mk_row 1 10 10 0], next_id = 2\<rparr>
   \<and> closure_createlink Sqlite (mk_node 3 (Some 10) 1) \<lparr>rows = [mk_row 1 10 10 0], next_id = 2\<rparr>
     = Inr \<lparr>rows = [mk_row 1 10 10 0, mk_row 2 3 3 0, mk_row 3 10 3 1], next_id = 4\<rparr>
   \<and> (10, 3, 1) \<in> links \<lparr>rows = [mk_row 1 10 10 0, mk_row 2 3 3 0, mk_row 3 10 3 1], next_id = 4\<rparr>
   \<and> is_descendant_of \<lparr>rows = [mk_row 1 10 10 0, mk_row 2 3 3 0, mk_row 3 10 3 1], next_id = 4\<rparr>
        (mk_node 3 (Some 10) 1) (mk_node 10 None 0) False = False"
  by code_simp

section \<open>A parent reference that does not resolve\<close>

text \<open>
  C8, as the code has it. For a node whose parent id names no row of the node table,
  the foreign-key lookup raises \<open>ObjectDoesNotExist\<close>; \<open>_closure_parent\<close> catches it and
  returns \<open>None\<close>, so the change tracker and the reparent update see a node without
  parent and no error. The error reaches the caller only from the \<open>pre_save\<close> receiver,
  which reads the parent outside \<open>_closure_parent\<close> when the parent id is true.
\<close>

theorem closure_parent_swallows_missing:
  assumes "parent_pk self = Some p" and "find (\<lambda>m. pk m = p) ns = None"
  shows "get_parent ns (parent_pk self) = Inl ObjectDoesNotExist
         \<and> closure_parent ns self = Inr None
         \<and> (p \<noteq> 0 \<longrightarrow> closure_model_set_level ns self = Inl ObjectDoesNotExist)"
  using assms
  by (simp add: get_parent_def closure_parent_def closure_parent_of_def
      closure_model_set_level_def truthy_def)

theorem closure_parent_swallows_missing_witness:
  "find (\<lambda>m. pk m = 7) [mk_node 1 None 0] = None
   \<and> closure_parent [mk_node 1 None 0] (mk_node 2 (Some 7) 1) = Inr None
   \<and> closure_model_set_level [mk_node 1 None 0] (mk_node 2 (Some 7) 1) = Inl ObjectDoesNotExist"
proof -
  have a: "parent_pk (mk_node 2 (Some 7) 1) = Some 7" by (simp add: mk_node_def)
  have b: "find (\<lambda>m. pk m = 7) [mk_node 1 None 0] = None" by (simp add: mk_node_def)
  from closure_parent_swallows_missing[OF a b] b show ?thesis by simp
qed

text \<open>
  The claim as written fails: node 2 refers to the parent 7, which is not in the node
  table; the lookup fails, and \<open>_closure_parent\<close> returns \<open>None\<close> instead of an error.
\<close>

theorem closure_parent_dangling_returns_none:
  "get_parent [mk_node 1 None 0] (parent_pk (mk_node 2 (Some 7) 1)) = Inl ObjectDoesNotExist
   \<and> closure_parent [mk_node 1 None 0] (mk_node 2 (Some 7) 1) = Inr None"
  by (simp add: get_parent_def closure_parent_def closure_parent_of_def mk_node_def)

section \<open>The reparent update\<close>

text \<open>With both parents present the level difference is that of the two node levels.\<close>

lemma leveldiff_both_present:
  "closure_leveldiff (Some np) (Some op) = (level np + 1) - (level op + 1)"
  by (simp add: closure_leveldiff_def)

text \<open>\<open>_closure_parent\<close> never raises: the only error of the lookup is the one it catches.\<close>

lemma closure_parent_total: "\<exists>r. closure_parent ns self = Inr r"
  by (auto simp: closure_parent_def closure_parent_of_def get_parent_def split: option.splits)

text \<open>
  In the module as it is, every call of \<open>_closure_update_links\<close> ends in \<open>NameError\<close>
  with the node table and the closure table unchanged.
\<close>

lemma update_links_unbound_F:
  "closure_update_links module_binds_F v d self old_parent = (Some NameError, d)"
proof -
  obtain r where "closure_parent (node_table d) self = Inr r"
    using closure_parent_total by blast
  then show ?thesis by (simp add: closure_update_links_def module_binds_F_def Let_def)
qed

text \<open>
  With \<open>F\<close> bound, the update adds \<open>leveldiff\<close> to the level of the nodes that the
  closure rows list as descendants of the node, and changes no other level.
\<close>

lemma update_links_levels:
  assumes "closure_parent (node_table d) self = Inr new_parent"
  shows "node_table (snd (closure_update_links True v d self old_parent)) =
           update_level (map pk (get_descendants_by_level d self False None))
             (closure_leveldiff new_parent old_parent) (node_table d)"
  using assms by (simp add: closure_update_links_def Let_def)

text \<open>
  C3 at a failing input. Node 2 (old level 1, old parent node 1 of level 0) becomes a
  root. The claimed delta is 0 - 1 = -1, which would bring its child, node 3, from level
  2 to level 1. The code computes 0 - 0 = 0: with \<open>F\<close> bound the update leaves node 3 at
  level 2. In the module as it is, \<open>F\<close> is unbound and the update raises \<open>NameError\<close>
  before it changes any level or closure row.
\<close>

theorem update_links_root_leveldiff:
  "spec_level_delta None 1 = - 1
   \<and> closure_leveldiff None (Some (mk_node 1 None 0)) = 0
   \<and> closure_update_links True Sqlite chain_db (mk_node 2 None 0) (Some (mk_node 1 None 0)) =
       (None, \<lparr>node_table = [mk_node 1 None 0, mk_node 2 None 0, mk_node 3 (Some 2) 2],
          closure = \<lparr>rows = [mk_row 1 1 1 0, mk_row 7 2 2 0, mk_row 8 3 3 0, mk_row 9 2 3 1],
                     next_id = 10\<rparr>\<rparr>)
   \<and> closure_update_links module_binds_F Sqlite chain_db (mk_node 2 None 0) (Some (mk_node 1 None 0)) =
       (Some NameError, chain_db)"
  by code_simp

text \<open>
  C2 at a failing input. Root 2 (with child 1) moves under root 3. In the module as it
  is the update raises \<open>NameError\<close> and the closure rows stay those of the old tree. With
  \<open>F\<close> bound the update writes the rows of the new tree, but the level difference is
  0 - 0 = 0, so node 1 keeps level 1, the level node 2 now has; \<open>rebuildtable\<close> then
  reaches node 1 before its parent 2 and gives it the self-link only. The rows of the
  subtree after the update and after a rebuild differ in (2, 1, 1).
\<close>

theorem update_links_differs_from_rebuild:
  "closure_update_links module_binds_F Sqlite moved_db (mk_node 2 (Some 3) 1) None
     = (Some NameError, moved_db)
   \<and> closure_update_links True Sqlite moved_db (mk_node 2 (Some 3) 1) None = (None, relinked_db)
   \<and> rebuildtable Sqlite relinked_db =
       (None, relinked_db\<lparr>closure := \<lparr>rows = [mk_row 10 3 3 0, mk_row 11 1 1 0,
                                      mk_row 12 2 2 0, mk_row 13 3 2 1], next_id = 14\<rparr>\<rparr>)
   \<and> (2, 1, 1) \<in> links_of_children {1, 2} (closure relinked_db)
   \<and> (2, 1, 1) \<notin> links_of_children {1, 2} (closure (snd (rebuildtable Sqlite relinked_db)))"
  by code_simp

section \<open>The change tracker\<close>










section \<open>Prepopulating the children\<close>

lemma hashobjs_keys: "(hashobjs self objs k \<noteq> None) = (k = pk self \<or> k \<in> pk ` set objs)"
proof -
  have "(hashobjs self objs k = None) =
        (k \<notin> fst ` set (rev (map (\<lambda>x. (pk x, x)) objs @ [(pk self, self)])))"
    unfolding hashobjs_def by (rule map_of_eq_None_iff)
  then show ?thesis by (auto simp: image_iff)
qed

text \<open>
  The loop over the descendants, from any cache with the keys of \<open>hashobjs\<close>: when every
  descendant's parent id is a key, each list grows by the descendants of that parent.
\<close>

lemma attach_children_ok:
  assumes "\<forall>d \<in> set ds. \<exists>p. parent_pk d = Some p \<and> h p \<noteq> None"
    and "\<forall>k. (cached k \<noteq> None) = (h k \<noteq> None)"
  shows "attach_children h ds cached =
           Inr (\<lambda>k. map_option (\<lambda>cs. cs @ children_of ds k) (cached k))"
  using assms
proof (induction ds arbitrary: cached)
  case Nil
  have "(\<lambda>k. map_option (\<lambda>cs. cs @ children_of [] k) (cached k)) = cached"
    by (rule ext) (simp add: children_of_def option.map_ident)
  then show ?case by simp
next
  case (Cons d ds)
  from Cons.prems(1) obtain p parent where p: "parent_pk d = Some p" "h p = Some parent" by auto
  with Cons.prems(2) obtain cs where cs: "cached p = Some cs"
    by (metis option.exhaust option.distinct(1))
  let ?c1 = "cached(p \<mapsto> cs @ [d])"
  have dom1: "\<forall>k. (?c1 k \<noteq> None) = (h k \<noteq> None)" using Cons.prems(2) p by auto
  have rest: "\<forall>d \<in> set ds. \<exists>p. parent_pk d = Some p \<and> h p \<noteq> None" using Cons.prems(1) by simp
  have "(\<lambda>k. map_option (\<lambda>cs. cs @ children_of ds k) (?c1 k)) =
        (\<lambda>k. map_option (\<lambda>cs. cs @ children_of (d # ds) k) (cached k))"
    by (rule ext) (auto simp: children_of_def p cs)
  moreover have "attach_children h (d # ds) cached = attach_children h ds ?c1"
    using p cs by simp
  ultimately show ?case using Cons.IH[OF rest dom1] by (simp only:)
qed

lemma attach_children_fail:
  assumes "\<exists>d \<in> set ds. \<not> (\<exists>p. parent_pk d = Some p \<and> h p \<noteq> None)"
    and "\<forall>k. (cached k \<noteq> None) = (h k \<noteq> None)"
  shows "attach_children h ds cached = Inl AssertionError"
  using assms
proof (induction ds arbitrary: cached)
  case Nil
  then show ?case by simp
next
  case (Cons d ds)
  show ?case
  proof (cases "\<exists>p. parent_pk d = Some p \<and> h p \<noteq> None")
    case False
    then show ?thesis by (auto split: option.splits)
  next
    case True
    then obtain p parent where p: "parent_pk d = Some p" "h p = Some parent" by auto
    with Cons.prems(2) obtain cs where cs: "cached p = Some cs"
      by (metis option.exhaust option.distinct(1))
    let ?c1 = "cached(p \<mapsto> cs @ [d])"
    have dom1: "\<forall>k. (?c1 k \<noteq> None) = (h k \<noteq> None)" using Cons.prems(2) p by auto
    have rest: "\<exists>d \<in> set ds. \<not> (\<exists>p. parent_pk d = Some p \<and> h p \<noteq> None)"
      using Cons.prems(1) True by auto
    have "attach_children h (d # ds) cached = attach_children h ds ?c1"
      using p cs by simp
    with Cons.IH[OF rest dom1] show ?thesis by (simp only:)
  qed
qed

text \<open>
  C9, as the code has it. When the parent id of every supplied descendant is the key of
  the node or of a supplied descendant, \<open>prepopulate\<close> builds the adjacency map whose
  keys are exactly the node and the supplied descendants, each key holding the supplied
  descendants with that parent id in the order supplied (the empty list when there is
  none). When some descendant's parent id is \<open>None\<close> or is no key of the map, the
  assertion in the loop fails: nothing is defaulted to the node.
\<close>

theorem prepopulate_adjacency:
  "prepopulate self objs =
     (if \<forall>d \<in> set objs. \<exists>p. parent_pk d = Some p \<and> (p = pk self \<or> p \<in> pk ` set objs)
      then Inr (\<lambda>k. if k = pk self \<or> k \<in> pk ` set objs then Some (children_of objs k) else None)
      else Inl AssertionError)"
proof -
  let ?h = "hashobjs self objs"
  let ?c0 = "\<lambda>k. case ?h k of None \<Rightarrow> None | Some x \<Rightarrow> Some ([]::node list)"
  have dom0: "\<forall>k. (?c0 k \<noteq> None) = (?h k \<noteq> None)" by (auto split: option.splits)
  show ?thesis
  proof (cases "\<forall>d \<in> set objs. \<exists>p. parent_pk d = Some p \<and> (p = pk self \<or> p \<in> pk ` set objs)")
    case True
    then have ok: "\<forall>d \<in> set objs. \<exists>p. parent_pk d = Some p \<and> ?h p \<noteq> None"
      using hashobjs_keys[of self objs] by blast
    have "(\<lambda>k. map_option (\<lambda>cs. cs @ children_of objs k) (?c0 k)) =
          (\<lambda>k. if k = pk self \<or> k \<in> pk ` set objs then Some (children_of objs k) else None)"
    proof (rule ext)
      fix k
      show "map_option (\<lambda>cs. cs @ children_of objs k) (?c0 k) =
          (if k = pk self \<or> k \<in> pk ` set objs then Some (children_of objs k) else None)"
        using hashobjs_keys[of self objs k] by (auto split: option.splits)
    qed
    with attach_children_ok[OF ok dom0] True show ?thesis
      by (simp add: prepopulate_def Let_def)
  next
    case False
    then have bad: "\<exists>d \<in> set objs. \<not> (\<exists>p. parent_pk d = Some p \<and> ?h p \<noteq> None)"
      using hashobjs_keys[of self objs] by blast
    from attach_children_fail[OF bad dom0] False show ?thesis
      by (simp add: prepopulate_def Let_def)
  qed
qed

text \<open>Node 1 with the supplied descendants 2 (child of 1) and 3 (child of 2).\<close>

theorem prepopulate_adjacency_witness:
  "(case prepopulate (mk_node 1 None 0) [mk_node 2 (Some 1) 1, mk_node 3 (Some 2) 2] of
      Inl e \<Rightarrow> False
    | Inr m \<Rightarrow> m 1 = Some [mk_node 2 (Some 1) 1] \<and> m 2 = Some [mk_node 3 (Some 2) 2]
               \<and> m 3 = Some [] \<and> m 4 = None)"
  using prepopulate_adjacency[of "mk_node 1 None 0" "[mk_node 2 (Some 1) 1, mk_node 3 (Some 2) 2]"]
  by (simp add: children_of_def mk_node_def)

text \<open>
  The claim as written fails: the supplied descendant 2 has the parent id 9, which is
  no key of the map; \<open>prepopulate\<close> fails on its assertion instead of listing node 2
  under node 1.
\<close>

theorem prepopulate_unmatched_parent_fails:
  "parent_pk (mk_node 2 (Some 9) 1) = Some 9
   \<and> hashobjs (mk_node 1 None 0) [mk_node 2 (Some 9) 1] 9 = None
   \<and> prepopulate (mk_node 1 None 0) [mk_node 2 (Some 9) 1] = Inl AssertionError"
  by (simp add: prepopulate_def hashobjs_def mk_node_def)

end
